theory Spec2Isabelle
  imports Main
begin

section \<open>Values, their string form, and exceptions\<close>

text \<open>
  The pipeline of \<^verbatim>\<open>ex2/nexus_pipeline.py\<close> moves values of type \<^verbatim>\<open>Any\<close>.
  The model covers the scalar values \<^verbatim>\<open>None\<close>, booleans, integers and strings.
\<close>

datatype pyval = PNone | PBool bool | PInt int | PStr string

text \<open>
  An exception is its class and its message. \<open>OtherError\<close> stands for every class
  that is neither \<^verbatim>\<open>TypeError\<close> nor \<^verbatim>\<open>ValueError\<close> (nor derived from them);
  \<open>recoverable\<close> is the test made by \<^verbatim>\<open>except (TypeError, ValueError)\<close>.
\<close>

datatype exn_class = TypeError | ValueError | OtherError string

datatype exn = Exn (exn_cls: exn_class) (exn_msg: string)

definition recoverable :: "exn \<Rightarrow> bool" where
  "recoverable e = (exn_cls e = TypeError \<or> exn_cls e = ValueError)"

text \<open>
  \<open>py_str\<close> is \<^verbatim>\<open>str(v)\<close>, which is also what an f-string field \<^verbatim>\<open>{v}\<close> gives.
  It can fail: CPython refuses to turn an integer of more than 4300 decimal digits
  (the default of \<^verbatim>\<open>sys.int_max_str_digits\<close>) into a string and raises a
  \<^verbatim>\<open>ValueError\<close>. \<open>int_str\<close> is the decimal form itself.
\<close>

fun nat_digits :: "nat \<Rightarrow> string" where
  "nat_digits n =
     (if n < 10 then [''0123456789'' ! n]
      else nat_digits (n div 10) @ [''0123456789'' ! (n mod 10)])"

declare nat_digits.simps [simp del]

definition int_str :: "int \<Rightarrow> string" where
  "int_str i = (if i < 0 then ''-'' @ nat_digits (nat (- i)) else nat_digits (nat i))"

definition int_max_str_digits :: nat where
  "int_max_str_digits = 4300"

definition digits_limit_error :: exn where
  "digits_limit_error =
     Exn ValueError
       (''Exceeds the limit (4300 digits) for integer string conversion; '' @
        ''use sys.set_int_max_str_digits() to increase the limit'')"

fun py_str :: "pyval \<Rightarrow> exn + string" where
  "py_str PNone = Inr ''None''"
| "py_str (PBool b) = Inr (if b then ''True'' else ''False'')"
| "py_str (PInt i) =
     (if int_max_str_digits < length (nat_digits (nat \<bar>i\<bar>)) then Inl digits_limit_error
      else Inr (int_str i))"
| "py_str (PStr s) = Inr s"

section \<open>Stages\<close>

text \<open>
  A stage is any object with a method \<^verbatim>\<open>process\<close>. The three classes of the source
  are constructors of their own; \<open>ProtocolStage f\<close> is any other stateless stage, which
  returns or raises, and prints, as \<open>f\<close> says. Every function of the model returns,
  next to its result, what it has printed: one list element for each call of
  \<^verbatim>\<open>print\<close>, in order. The call of \<^verbatim>\<open>print\<close> itself is taken to succeed: the
  strings of the model are byte sequences, texts that standard output can encode.
\<close>

datatype stage =
    InputStage
  | TransformStage
  | OutputStage
  | ProtocolStage "pyval \<Rightarrow> (exn + pyval) \<times> string list"

definition InputStage_process :: "pyval \<Rightarrow> (exn + pyval) \<times> string list" where
  "InputStage_process data = (Inr data, [''Stage Input: Validating and parsing data''])"

definition TransformStage_process :: "pyval \<Rightarrow> (exn + pyval) \<times> string list" where
  "TransformStage_process data =
     (if data = PStr ''FAIL''
      then (Inl (Exn ValueError ''Invalid data format''), [''Stage Transform: Enriching data''])
      else (Inr data, [''Stage Transform: Enriching data'']))"

definition OutputStage_process :: "pyval \<Rightarrow> (exn + pyval) \<times> string list" where
  "OutputStage_process data = (Inr data, [''Stage Output: Formatting result''])"

fun stage_process :: "stage \<Rightarrow> pyval \<Rightarrow> (exn + pyval) \<times> string list" where
  "stage_process InputStage data = InputStage_process data"
| "stage_process TransformStage data = TransformStage_process data"
| "stage_process OutputStage data = OutputStage_process data"
| "stage_process (ProtocolStage f) data = f data"

section \<open>Pipelines and the store\<close>

text \<open>
  \<open>ProcessingPipeline\<close> is abstract; an object is of one of its three subclasses,
  kept in the field \<open>cls\<close>. Pipelines are mutable objects that a manager holds by
  reference, so they live in a store, and the same object may be registered twice.
\<close>

datatype adapter = JSONAdapter | CSVAdapter | StreamAdapter

record ProcessingPipeline =
  pipeline_id :: string
  stages :: "stage list"
  processed_count :: int
  cls :: adapter

type_synonym ref = nat

type_synonym heap = "ref \<Rightarrow> ProcessingPipeline"

definition ProcessingPipeline_init :: "adapter \<Rightarrow> string \<Rightarrow> ProcessingPipeline" where
  "ProcessingPipeline_init c pid =
     \<lparr>pipeline_id = pid, stages = [], processed_count = 0, cls = c\<rparr>"

definition add_stage :: "ref \<Rightarrow> stage \<Rightarrow> heap \<Rightarrow> heap" where
  "add_stage self stage h = h(self := (h self)\<lparr>stages := stages (h self) @ [stage]\<rparr>)"

text \<open>
  The loop of \<^verbatim>\<open>run_stages\<close> over the stages that are left. The handler prints
  two lines and then formats the value held before the failing stage; an exception
  of that formatting is raised inside the handler, so nothing catches it.
\<close>

fun run_stages_loop :: "stage list \<Rightarrow> pyval \<Rightarrow> (exn + pyval) \<times> string list" where
  "run_stages_loop [] current_data = (Inr current_data, [])"
| "run_stages_loop (stage # rest) current_data =
     (case stage_process stage current_data of
        (Inr v, out) \<Rightarrow>
          (case run_stages_loop rest v of (res, out') \<Rightarrow> (res, out @ out'))
      | (Inl e, out) \<Rightarrow>
          if recoverable e then
            (case py_str current_data of
               Inl e' \<Rightarrow>
                 (Inl e', out @
                    [''Error detected in stage: '' @ exn_msg e,
                     ''Recovery initiated: Switching to safe mode''])
             | Inr s \<Rightarrow>
                 (case run_stages_loop rest (PStr (''[RECOVERED]'' @ s)) of
                    (res, out') \<Rightarrow>
                      (res, out @
                         [''Error detected in stage: '' @ exn_msg e,
                          ''Recovery initiated: Switching to safe mode'',
                          ''Recovery successful. Continuing pipeline.''] @ out')))
          else (Inl e, out))"

definition run_stages :: "ProcessingPipeline \<Rightarrow> pyval \<Rightarrow> (exn + pyval) \<times> string list" where
  "run_stages self data = run_stages_loop (stages self) data"

text \<open>
  The three \<^verbatim>\<open>process\<close> methods differ in two string literals only: the line
  printed on entry and the prefix of the returned text. The input is formatted for
  the second line before the stages run, and the result is formatted after the
  counter has been incremented; either formatting can raise.
\<close>

definition adapter_process ::
  "string \<Rightarrow> string \<Rightarrow> ref \<Rightarrow> pyval \<Rightarrow> heap \<Rightarrow> (exn + pyval) \<times> heap \<times> string list" where
  "adapter_process entry prefix self data h =
     (case py_str data of
        Inl e \<Rightarrow> (Inl e, h, [entry])
      | Inr s \<Rightarrow>
          (case run_stages (h self) data of
             (Inl e, out) \<Rightarrow> (Inl e, h, [entry, ''Receiving: '' @ s @ [CHR 0x0A]] @ out)
           | (Inr result, out) \<Rightarrow>
               (case py_str result of
                  Inl e \<Rightarrow>
                    (Inl e,
                     h(self := (h self)\<lparr>processed_count := processed_count (h self) + 1\<rparr>),
                     [entry, ''Receiving: '' @ s @ [CHR 0x0A]] @ out)
                | Inr t \<Rightarrow>
                    (Inr (PStr (prefix @ t)),
                     h(self := (h self)\<lparr>processed_count := processed_count (h self) + 1\<rparr>),
                     [entry, ''Receiving: '' @ s @ [CHR 0x0A]] @ out))))"

definition JSONAdapter_process ::
  "ref \<Rightarrow> pyval \<Rightarrow> heap \<Rightarrow> (exn + pyval) \<times> heap \<times> string list" where
  "JSONAdapter_process =
     adapter_process ''Adapter: Processing JSON data through pipeline...''
       ''Processed JSON data: ''"

definition CSVAdapter_process ::
  "ref \<Rightarrow> pyval \<Rightarrow> heap \<Rightarrow> (exn + pyval) \<times> heap \<times> string list" where
  "CSVAdapter_process =
     adapter_process ''Adapter: Processing CSV data through same pipeline...''
       ''Processed CSV data: ''"

definition StreamAdapter_process ::
  "ref \<Rightarrow> pyval \<Rightarrow> heap \<Rightarrow> (exn + pyval) \<times> heap \<times> string list" where
  "StreamAdapter_process =
     adapter_process ''Adapter: Processing Stream data through same pipeline...''
       ''Processed STREAM data: ''"

text \<open>The call \<^verbatim>\<open>pipeline.process(data)\<close>, dispatched on the object's class.\<close>

definition process :: "ref \<Rightarrow> pyval \<Rightarrow> heap \<Rightarrow> (exn + pyval) \<times> heap \<times> string list" where
  "process self data h =
     (case cls (h self) of
        JSONAdapter \<Rightarrow> JSONAdapter_process self data h
      | CSVAdapter \<Rightarrow> CSVAdapter_process self data h
      | StreamAdapter \<Rightarrow> StreamAdapter_process self data h)"

section \<open>The manager\<close>

record NexusManager =
  pipelines :: "ref list"

definition NexusManager_init :: NexusManager where
  "NexusManager_init = \<lparr>pipelines = []\<rparr>"

definition add_pipeline :: "NexusManager \<Rightarrow> ref \<Rightarrow> NexusManager" where
  "add_pipeline self pipeline = self\<lparr>pipelines := pipelines self @ [pipeline]\<rparr>"

text \<open>
  The body of the \<^verbatim>\<open>try\<close> in \<^verbatim>\<open>execute_all\<close>: the call of \<^verbatim>\<open>process\<close> and the
  line that prints its result.
\<close>

definition execute_all_try ::
  "ref \<Rightarrow> pyval \<Rightarrow> heap \<Rightarrow> (exn + unit) \<times> heap \<times> string list" where
  "execute_all_try pipeline data h =
     (case process pipeline data h of
        (Inl e, h1, out) \<Rightarrow> (Inl e, h1, out)
      | (Inr result, h1, out) \<Rightarrow>
          (case py_str result of
             Inl e \<Rightarrow> (Inl e, h1, out)
           | Inr s \<Rightarrow>
               (Inr (), h1, out @ [''Nexus Manager result: '' @ s @ [CHR 0x0A]])))"

fun execute_all_loop ::
  "ref list \<Rightarrow> pyval \<Rightarrow> heap \<Rightarrow> (exn + unit) \<times> heap \<times> string list" where
  "execute_all_loop [] data h = (Inr (), h, [])"
| "execute_all_loop (pipeline # rest) data h =
     (case execute_all_try pipeline data h of
        (Inr u, h1, out) \<Rightarrow>
          (case execute_all_loop rest data h1 of
             (res, h2, out') \<Rightarrow> (res, h2, out @ out'))
      | (Inl e, h1, out) \<Rightarrow>
          if recoverable e then
            (case execute_all_loop rest data h1 of
               (res, h2, out') \<Rightarrow>
                 (res, h2, out @ [''Error procesing data '' @ exn_msg e] @ out'))
          else (Inl e, h1, out))"

definition execute_all ::
  "NexusManager \<Rightarrow> pyval \<Rightarrow> heap \<Rightarrow> (exn + unit) \<times> heap \<times> string list" where
  "execute_all self data h = execute_all_loop (pipelines self) data h"

text \<open>
  The pass counter \<open>i\<close> starts at 1 and grows by 1 for each adapter, so it never
  exceeds the number of registered adapters plus 1. A Python list holds fewer than
  \<open>2 ^ 63\<close> elements, far fewer than an integer of 4300 digits, so the counter is
  always formatted: its decimal form \<open>int_str i\<close> is taken directly.
\<close>

fun execute_chain_loop ::
  "ref list \<Rightarrow> pyval \<Rightarrow> int \<Rightarrow> heap \<Rightarrow> (exn + pyval) \<times> heap \<times> string list" where
  "execute_chain_loop [] current_data i h = (Inr current_data, h, [])"
| "execute_chain_loop (pipeline # rest) current_data i h =
     (case process pipeline current_data h of
        (Inl e, h1, out) \<Rightarrow>
          (Inl e, h1, [[CHR 0x0A] @ ''Chain pass '' @ int_str i @ '': ''] @ out)
      | (Inr v, h1, out) \<Rightarrow>
          (case execute_chain_loop rest v (i + 1) h1 of
             (res, h2, out') \<Rightarrow>
               (res, h2,
                [[CHR 0x0A] @ ''Chain pass '' @ int_str i @ '': ''] @ out @ out')))"

definition execute_chain ::
  "NexusManager \<Rightarrow> pyval \<Rightarrow> heap \<Rightarrow> (exn + pyval) \<times> heap \<times> string list" where
  "execute_chain self data h = execute_chain_loop (pipelines self) data 1 h"

section \<open>The chain as a left fold\<close>

text \<open>
  The reading of \<^verbatim>\<open>execute_chain\<close> as a left fold of \<^verbatim>\<open>process\<close> over the
  manager's adapters. The accumulator is the current value with the store; an
  exception raised by one adapter ends the fold, since nothing catches it.
\<close>

definition chain_step :: "(exn + pyval) \<times> heap \<Rightarrow> ref \<Rightarrow> (exn + pyval) \<times> heap" where
  "chain_step acc adapter =
     (case acc of
        (Inl e, h) \<Rightarrow> (Inl e, h)
      | (Inr current, h) \<Rightarrow>
          (case process adapter current h of (res, h', out) \<Rightarrow> (res, h')))"

definition execute_chain_fold :: "NexusManager \<Rightarrow> pyval \<Rightarrow> heap \<Rightarrow> (exn + pyval) \<times> heap" where
  "execute_chain_fold self data h = foldl chain_step (Inr data, h) (pipelines self)"

section \<open>The objects that main builds\<close>

text \<open>
  The store is total: an address that no reference holds carries a blank object.
  \<open>new_pipeline\<close> is a constructor call whose object is placed at a given address.
  \<open>main_heap\<close> and \<open>main_manager\<close> are the three pipelines of three stages and the
  manager that \<^verbatim>\<open>main\<close> sets up; \<open>fatal_heap\<close> gives the CSV pipeline a fourth
  stage that raises an error of another class.
\<close>

definition blank_heap :: heap where
  "blank_heap = (\<lambda>_. ProcessingPipeline_init JSONAdapter [])"

definition new_pipeline :: "adapter \<Rightarrow> string \<Rightarrow> ref \<Rightarrow> heap \<Rightarrow> heap" where
  "new_pipeline c pid r h = h(r := ProcessingPipeline_init c pid)"

definition three_stages :: "ref \<Rightarrow> heap \<Rightarrow> heap" where
  "three_stages r h = add_stage r OutputStage (add_stage r TransformStage (add_stage r InputStage h))"

definition main_heap :: heap where
  "main_heap =
     three_stages 2 (new_pipeline StreamAdapter ''STREAM_01'' 2
       (three_stages 1 (new_pipeline CSVAdapter ''CSV_01'' 1
         (three_stages 0 (new_pipeline JSONAdapter ''JSON_01'' 0 blank_heap)))))"

definition main_manager :: NexusManager where
  "main_manager = add_pipeline (add_pipeline (add_pipeline NexusManager_init 0) 1) 2"

definition fatal_stage :: stage where
  "fatal_stage = ProtocolStage (\<lambda>_. (Inl (Exn (OtherError ''RuntimeError'') ''disk failure''), []))"

definition fatal_heap :: heap where
  "fatal_heap = add_stage 1 fatal_stage main_heap"

text \<open>
  \<open>huge_int\<close> is the Python integer \<^verbatim>\<open>10**4300\<close>, of 4301 digits;
  \<open>value_error_stage\<close> raises a \<^verbatim>\<open>ValueError\<close> on every input and \<open>huge_stage\<close>
  returns \<open>huge_int\<close> on every input. In \<open>exotic_heap\<close> the JSON adapter has these
  two stages, in the order \<open>huge_stage\<close>, \<open>value_error_stage\<close>, and the CSV adapter
  has the one stage \<open>fatal_stage\<close>; \<open>exotic_manager\<close> holds the two.
\<close>

definition huge_int :: int where
  "huge_int = 10 ^ 4300"

definition value_error_stage :: stage where
  "value_error_stage = ProtocolStage (\<lambda>_. (Inl (Exn ValueError ''bad value''), []))"

definition huge_stage :: stage where
  "huge_stage = ProtocolStage (\<lambda>_. (Inr (PInt huge_int), []))"

definition exotic_heap :: heap where
  "exotic_heap =
     add_stage 1 fatal_stage (new_pipeline CSVAdapter ''B'' 1
       (add_stage 0 value_error_stage (add_stage 0 huge_stage
         (new_pipeline JSONAdapter ''A'' 0 blank_heap))))"

definition exotic_manager :: NexusManager where
  "exotic_manager = add_pipeline (add_pipeline NexusManager_init 0) 1"

section \<open>The limit on the digits of an integer\<close>

lemma nat_digits_nonempty: "0 < length (nat_digits n)"
  by (subst nat_digits.simps) simp

lemma nat_digits_length_gt: "10 ^ k \<le> n \<Longrightarrow> k < length (nat_digits n)"
proof (induction k arbitrary: n)
  case 0
  show ?case by (rule nat_digits_nonempty)
next
  case (Suc k)
  have "(10::nat) \<le> 10 ^ Suc k" by simp
  with Suc.prems have big: "\<not> n < 10" by linarith
  from Suc.prems have "10 ^ k \<le> n div 10"
    by (simp add: less_eq_div_iff_mult_less_eq mult.commute)
  from Suc.IH[OF this] have "k < length (nat_digits (n div 10))" .
  with big show ?case by (subst nat_digits.simps) simp
qed

lemma nat_digits_length_le: "n < 10 ^ Suc k \<Longrightarrow> length (nat_digits n) \<le> Suc k"
proof (induction k arbitrary: n)
  case 0
  then show ?case by (subst nat_digits.simps) simp
next
  case (Suc k)
  show ?case
  proof (cases "n < 10")
    case True
    then show ?thesis by (subst nat_digits.simps) simp
  next
    case False
    from Suc.prems have "n div 10 < 10 ^ Suc k"
      by (simp add: div_less_iff_less_mult mult.commute)
    from Suc.IH[OF this] False show ?thesis by (subst nat_digits.simps) simp
  qed
qed

lemma nat_digits_length_iff:
  assumes "0 < k"
  shows "k < length (nat_digits n) \<longleftrightarrow> 10 ^ k \<le> n"
proof
  assume a: "k < length (nat_digits n)"
  from assms obtain j where k: "k = Suc j" by (cases k) auto
  show "10 ^ k \<le> n"
  proof (rule ccontr)
    assume "\<not> 10 ^ k \<le> n"
    with k have "n < 10 ^ Suc j" by simp
    from nat_digits_length_le[OF this] a k show False by simp
  qed
next
  assume "10 ^ k \<le> n"
  then show "k < length (nat_digits n)" by (rule nat_digits_length_gt)
qed

lemma int_digits_length_iff:
  assumes "0 < k"
  shows "k < length (nat_digits (nat \<bar>i\<bar>)) \<longleftrightarrow> 10 ^ k \<le> \<bar>i\<bar>"
proof -
  have "(10::nat) ^ k \<le> nat \<bar>i\<bar> \<longleftrightarrow> (10::int) ^ k \<le> \<bar>i\<bar>"
  proof -
    have "(10::nat) ^ k \<le> nat \<bar>i\<bar> \<longleftrightarrow> int (10 ^ k) \<le> int (nat \<bar>i\<bar>)"
      by (simp only: of_nat_le_iff)
    moreover have "int (nat \<bar>i\<bar>) = \<bar>i\<bar>" by simp
    moreover have "int (10 ^ k) = (10::int) ^ k" by simp
    ultimately show ?thesis by (simp only:)
  qed
  with nat_digits_length_iff[OF assms, of "nat \<bar>i\<bar>"] show ?thesis by (simp only:)
qed

lemma py_str_PInt_raises_iff:
  "(\<exists>e. py_str (PInt i) = Inl e) \<longleftrightarrow> 10 ^ int_max_str_digits \<le> \<bar>i\<bar>"
proof -
  have "0 < int_max_str_digits" unfolding int_max_str_digits_def by (rule zero_less_numeral)
  from int_digits_length_iff[OF this, of i] show ?thesis by simp
qed

lemma py_str_huge_int: "py_str (PInt huge_int) = Inl digits_limit_error"
proof -
  have "(0::int) \<le> 10 ^ int_max_str_digits" by (rule zero_le_power) simp
  then have "(10::int) ^ int_max_str_digits \<le> \<bar>10 ^ int_max_str_digits\<bar>" by (simp only: abs_of_nonneg order_refl)
  moreover have "huge_int = 10 ^ int_max_str_digits"
    unfolding huge_int_def int_max_str_digits_def by (rule refl)
  ultimately have "(10::int) ^ int_max_str_digits \<le> \<bar>huge_int\<bar>" by (simp only:)
  with py_str_PInt_raises_iff[of huge_int] obtain e where "py_str (PInt huge_int) = Inl e" by blast
  then show ?thesis by (simp split: if_splits)
qed

lemma py_str_error: "py_str v = Inl e \<Longrightarrow> e = digits_limit_error"
  by (cases v) (simp_all split: if_splits)

lemma recoverable_digits_limit_error: "recoverable digits_limit_error"
  by (simp add: recoverable_def digits_limit_error_def)

lemma py_str_error_recoverable: "py_str v = Inl e \<Longrightarrow> recoverable e"
  using py_str_error recoverable_digits_limit_error by blast


section \<open>Properties of the stage loop\<close>



section \<open>Properties of an adapter's process\<close>

lemma process_unfold:
  "process self data h =
     adapter_process
       (case cls (h self) of
          JSONAdapter \<Rightarrow> ''Adapter: Processing JSON data through pipeline...''
        | CSVAdapter \<Rightarrow> ''Adapter: Processing CSV data through same pipeline...''
        | StreamAdapter \<Rightarrow> ''Adapter: Processing Stream data through same pipeline...'')
       (case cls (h self) of
          JSONAdapter \<Rightarrow> ''Processed JSON data: ''
        | CSVAdapter \<Rightarrow> ''Processed CSV data: ''
        | StreamAdapter \<Rightarrow> ''Processed STREAM data: '')
       self data h"
  by (cases "cls (h self)")
     (simp_all add: process_def JSONAdapter_process_def CSVAdapter_process_def
        StreamAdapter_process_def)

lemma process_ok_full:
  assumes "py_str data = Inr s" and "run_stages (h self) data = (Inr v, out)"
    and "py_str v = Inr t"
  shows "process self data h =
     (Inr (PStr ((case cls (h self) of
                         JSONAdapter \<Rightarrow> ''Processed JSON data: ''
                       | CSVAdapter \<Rightarrow> ''Processed CSV data: ''
                       | StreamAdapter \<Rightarrow> ''Processed STREAM data: '') @ t)),
      h(self := (h self)\<lparr>processed_count := processed_count (h self) + 1\<rparr>),
      [(case cls (h self) of
          JSONAdapter \<Rightarrow> ''Adapter: Processing JSON data through pipeline...''
        | CSVAdapter \<Rightarrow> ''Adapter: Processing CSV data through same pipeline...''
        | StreamAdapter \<Rightarrow> ''Adapter: Processing Stream data through same pipeline...''),
       ''Receiving: '' @ s @ [CHR 0x0A]] @ out)"
  using assms by (simp add: process_unfold adapter_process_def)

lemma process_error_full:
  assumes "py_str data = Inr s" and "run_stages (h self) data = (Inl e, out)"
  shows "process self data h =
     (Inl e, h,
      [(case cls (h self) of
          JSONAdapter \<Rightarrow> ''Adapter: Processing JSON data through pipeline...''
        | CSVAdapter \<Rightarrow> ''Adapter: Processing CSV data through same pipeline...''
        | StreamAdapter \<Rightarrow> ''Adapter: Processing Stream data through same pipeline...''),
       ''Receiving: '' @ s @ [CHR 0x0A]] @ out)"
  using assms by (simp add: process_unfold adapter_process_def)

lemma process_unprintable_full:
  assumes "py_str data = Inl e"
  shows "process self data h =
     (Inl e, h,
      [(case cls (h self) of
          JSONAdapter \<Rightarrow> ''Adapter: Processing JSON data through pipeline...''
        | CSVAdapter \<Rightarrow> ''Adapter: Processing CSV data through same pipeline...''
        | StreamAdapter \<Rightarrow> ''Adapter: Processing Stream data through same pipeline...'')])"
  using assms by (simp add: process_unfold adapter_process_def)

lemma process_ok:
  assumes "py_str data = Inr s" and "run_stages (h self) data = (Inr v, out)"
    and "py_str v = Inr t"
  shows "fst (process self data h) =
           Inr (PStr ((case cls (h self) of
                         JSONAdapter \<Rightarrow> ''Processed JSON data: ''
                       | CSVAdapter \<Rightarrow> ''Processed CSV data: ''
                       | StreamAdapter \<Rightarrow> ''Processed STREAM data: '') @ t))"
    and "fst (snd (process self data h)) =
           h(self := (h self)\<lparr>processed_count := processed_count (h self) + 1\<rparr>)"
  using assms by (simp_all add: process_unfold adapter_process_def)


lemma process_Inr_iff:
  "process self data h = (Inr w, h', out) \<Longrightarrow>
   (\<exists>s. py_str data = Inr s) \<and> (\<exists>v. fst (run_stages (h self) data) = Inr v) \<and>
   (\<exists>t. w = PStr t) \<and>
   h' = h(self := (h self)\<lparr>processed_count := processed_count (h self) + 1\<rparr>)"
  by (auto simp add: process_unfold adapter_process_def split: sum.splits prod.splits)

lemma process_Inl_cases:
  "process self data h = (Inl e, h', out) \<Longrightarrow>
   (h' = h \<and> (e = digits_limit_error \<or> fst (run_stages (h self) data) = Inl e))
   \<or> (e = digits_limit_error \<and>
       h' = h(self := (h self)\<lparr>processed_count := processed_count (h self) + 1\<rparr>))"
  by (auto simp add: process_unfold adapter_process_def split: sum.splits prod.splits
      dest: py_str_error)

lemma process_fatal_store:
  assumes "process self data h = (Inl e, h', out)" and "\<not> recoverable e"
  shows "h' = h" and "fst (run_stages (h self) data) = Inl e"
  using process_Inl_cases[OF assms(1)] assms(2) recoverable_digits_limit_error by auto

lemma process_store:
  "process self data h = (res, h', out) \<Longrightarrow>
   h' = h \<or> h' = h(self := (h self)\<lparr>processed_count := processed_count (h self) + 1\<rparr>)"
  by (cases res) (auto dest: process_Inl_cases process_Inr_iff)

lemma process_config:
  "process self data h = (res, h', out) \<Longrightarrow>
   stages (h' r) = stages (h r) \<and> cls (h' r) = cls (h r) \<and> pipeline_id (h' r) = pipeline_id (h r)"
  by (auto dest!: process_store)

lemma process_count_le:
  "process self data h = (res, h', out) \<Longrightarrow> processed_count (h r) \<le> processed_count (h' r)"
  by (auto dest!: process_store)

lemma process_count_other:
  "process self data h = (res, h', out) \<Longrightarrow> r \<noteq> self \<Longrightarrow>
   processed_count (h' r) = processed_count (h r)"
  by (auto dest!: process_store)

lemma process_count_Inr:
  "process self data h = (Inr w, h', out) \<Longrightarrow>
   processed_count (h' r) = processed_count (h r) + (if r = self then 1 else 0)"
  by (auto dest!: process_Inr_iff)

lemma process_cong:
  assumes "stages (h' self) = stages (h self)" and "cls (h' self) = cls (h self)"
  shows "fst (process self data h') = fst (process self data h)"
    and "snd (snd (process self data h')) = snd (snd (process self data h))"
    and "processed_count (fst (snd (process self data h')) self) - processed_count (h' self)
         = processed_count (fst (snd (process self data h)) self) - processed_count (h self)"
  using assms
  by (simp_all add: process_unfold adapter_process_def run_stages_def
      split: prod.splits sum.splits)

section \<open>Properties of the manager's loops\<close>

lemma execute_all_try_Inr:
  "process p x h = (Inr (PStr t), h1, out) \<Longrightarrow>
   execute_all_try p x h = (Inr (), h1, out @ [''Nexus Manager result: '' @ t @ [CHR 0x0A]])"
  by (simp add: execute_all_try_def)

lemma execute_all_try_Inl:
  "process p x h = (Inl e, h1, out) \<Longrightarrow> execute_all_try p x h = (Inl e, h1, out)"
  by (simp add: execute_all_try_def)

lemma execute_all_try_cases:
  obtains (returns) t h1 out where "process p x h = (Inr (PStr t), h1, out)"
      and "execute_all_try p x h =
             (Inr (), h1, out @ [''Nexus Manager result: '' @ t @ [CHR 0x0A]])"
  | (raises) e h1 out where "process p x h = (Inl e, h1, out)"
      and "execute_all_try p x h = (Inl e, h1, out)"
proof -
  obtain r h1 out where pr: "process p x h = (r, h1, out)" by (cases "process p x h")
  show ?thesis
  proof (cases r)
    case (Inl e)
    with pr raises execute_all_try_Inl show ?thesis by blast
  next
    case (Inr w)
    with pr process_Inr_iff[of p x h w h1 out] obtain t where "w = PStr t" by auto
    with pr Inr returns execute_all_try_Inr show ?thesis by blast
  qed
qed

lemma foldl_chain_step_Inl: "foldl chain_step (Inl e, h) ps = (Inl e, h)"
  by (induction ps) (simp_all add: chain_step_def)

lemma execute_chain_loop_fold:
  "(case execute_chain_loop ps cur i h of (res, h', out) \<Rightarrow> (res, h')) =
   foldl chain_step (Inr cur, h) ps"
proof (induction ps arbitrary: cur i h)
  case Nil
  then show ?case by simp
next
  case (Cons p ps)
  obtain r h1 o1 where pr: "process p cur h = (r, h1, o1)"
    by (cases "process p cur h")
  show ?case
  proof (cases r)
    case (Inl e)
    with pr have "chain_step (Inr cur, h) p = (Inl e, h1)" by (simp add: chain_step_def)
    with pr Inl show ?thesis by (simp add: foldl_chain_step_Inl)
  next
    case (Inr v)
    with pr have "chain_step (Inr cur, h) p = (Inr v, h1)" by (simp add: chain_step_def)
    with Cons.IH[of v "i + 1" h1] pr Inr show ?thesis
      by (simp split: prod.splits)
  qed
qed

lemma execute_all_loop_append:
  "execute_all_loop pre x h = (Inr (), h1, out1) \<Longrightarrow>
   execute_all_loop (pre @ post) x h =
     (case execute_all_loop post x h1 of (res, h2, out2) \<Rightarrow> (res, h2, out1 @ out2))"
proof (induction pre arbitrary: h out1)
  case Nil
  then show ?case by (simp split: prod.splits)
next
  case (Cons p pre)
  obtain r ha oa where tr: "execute_all_try p x h = (r, ha, oa)"
    by (cases "execute_all_try p x h")
  obtain r' hb ob where t: "execute_all_loop pre x ha = (r', hb, ob)"
    by (cases "execute_all_loop pre x ha")
  show ?case
  proof (cases r)
    case (Inr u)
    with Cons.prems tr t have eq: "r' = Inr ()" "hb = h1" "out1 = oa @ ob" by auto
    from Cons.IH[of ha ob] t eq have
      "execute_all_loop (pre @ post) x ha =
         (case execute_all_loop post x h1 of (res, h2, out2) \<Rightarrow> (res, h2, ob @ out2))" by simp
    with tr Inr eq show ?thesis by (simp split: prod.splits)
  next
    case (Inl e)
    with Cons.prems tr have rec: "recoverable e" by (auto split: if_splits)
    with Cons.prems tr t Inl have eq: "r' = Inr ()" "hb = h1"
      "out1 = oa @ [''Error procesing data '' @ exn_msg e] @ ob" by auto
    from Cons.IH[of ha ob] t eq have
      "execute_all_loop (pre @ post) x ha =
         (case execute_all_loop post x h1 of (res, h2, out2) \<Rightarrow> (res, h2, ob @ out2))" by simp
    with tr Inl rec eq show ?thesis by (simp split: prod.splits)
  qed
qed

lemma execute_all_loop_step:
  assumes "execute_all_loop (p # ps) x h = (Inr (), h', out)"
  obtains out' where
    "execute_all_loop ps x (fst (snd (process p x h))) = (Inr (), h', out')"
proof -
  show ?thesis
  proof (cases rule: execute_all_try_cases[of p x h])
    case (returns t h1 o1)
    obtain r' hb ob where t: "execute_all_loop ps x h1 = (r', hb, ob)"
      by (cases "execute_all_loop ps x h1")
    with assms returns have "r' = Inr ()" "hb = h'" by auto
    with t returns that show ?thesis by simp
  next
    case (raises e h1 o1)
    obtain r' hb ob where t: "execute_all_loop ps x h1 = (r', hb, ob)"
      by (cases "execute_all_loop ps x h1")
    with assms raises have "r' = Inr ()" "hb = h'" by (auto split: if_splits)
    with t raises that show ?thesis by simp
  qed
qed

lemma execute_all_loop_delta:
  assumes "execute_all_loop ps x h = (Inr (), h', out)"
    and "\<forall>r. stages (h r) = stages (h0 r) \<and> cls (h r) = cls (h0 r)"
  shows "processed_count (h' r) =
           processed_count (h r) +
           int (count_list ps r) *
             (processed_count (fst (snd (process r x h0)) r) - processed_count (h0 r))"
  using assms
proof (induction ps arbitrary: h out)
  case Nil
  then show ?case by simp
next
  case (Cons p ps)
  let ?h1 = "fst (snd (process p x h))"
  let ?d = "processed_count (fst (snd (process r x h0)) r) - processed_count (h0 r)"
  from execute_all_loop_step[OF Cons.prems(1)] obtain out' where
    l: "execute_all_loop ps x ?h1 = (Inr (), h', out')" by blast
  have pr: "process p x h = (fst (process p x h), ?h1, snd (snd (process p x h)))" by simp
  from process_config[OF pr] Cons.prems(2)
  have cfg: "\<forall>r. stages (?h1 r) = stages (h0 r) \<and> cls (?h1 r) = cls (h0 r)" by simp
  from Cons.IH[OF l cfg]
  have ih: "processed_count (h' r) = processed_count (?h1 r) + int (count_list ps r) * ?d" .
  have "processed_count (?h1 r) = processed_count (h r) + (if p = r then ?d else 0)"
  proof (cases "p = r")
    case True
    from Cons.prems(2) have "stages (h r) = stages (h0 r)" "cls (h r) = cls (h0 r)" by simp_all
    from process_cong(3)[of h r h0, OF this, of x] True show ?thesis by simp
  next
    case False
    then have "r \<noteq> p" by simp
    from process_count_other[OF pr this] False show ?thesis by simp
  qed
  with ih show ?case by (cases "p = r") (simp_all add: algebra_simps)
qed

lemma execute_all_loop_mono:
  "execute_all_loop ps x h = (res, h', out) \<Longrightarrow> processed_count (h r) \<le> processed_count (h' r)"
proof (induction ps arbitrary: h out res h')
  case Nil
  then show ?case by simp
next
  case (Cons p ps)
  obtain rp ha oa where tr: "execute_all_try p x h = (rp, ha, oa)"
    by (cases "execute_all_try p x h")
  obtain r' hb ob where t: "execute_all_loop ps x ha = (r', hb, ob)"
    by (cases "execute_all_loop ps x ha")
  have "ha = fst (snd (process p x h))"
    using tr by (cases rule: execute_all_try_cases[of p x h]) simp_all
  then have pr: "process p x h = (fst (process p x h), ha, snd (snd (process p x h)))" by simp
  from process_count_le[OF pr] have le: "processed_count (h r) \<le> processed_count (ha r)" .
  from Cons.IH[OF t] have le2: "processed_count (ha r) \<le> processed_count (hb r)" .
  from Cons.prems tr t have "h' = ha \<or> h' = hb" by (simp split: if_splits sum.splits)
  with le le2 show ?case by auto
qed

lemma execute_chain_loop_mono:
  "execute_chain_loop ps cur i h = (res, h', out) \<Longrightarrow>
   processed_count (h r) \<le> processed_count (h' r)"
proof (induction ps arbitrary: cur i h out res h')
  case Nil
  then show ?case by simp
next
  case (Cons p ps)
  obtain rp ha oa where pr: "process p cur h = (rp, ha, oa)" by (cases "process p cur h")
  from process_count_le[OF pr] have le: "processed_count (h r) \<le> processed_count (ha r)" .
  show ?case
  proof (cases rp)
    case (Inr v)
    obtain r' hb ob where t: "execute_chain_loop ps v (i + 1) ha = (r', hb, ob)"
      by (cases "execute_chain_loop ps v (i + 1) ha")
    from Cons.IH[OF t] have le2: "processed_count (ha r) \<le> processed_count (hb r)" .
    from Cons.prems pr t Inr have "hb = h'" by simp
    with le le2 show ?thesis by simp
  next
    case (Inl e)
    with Cons.prems pr have "h' = ha" by simp
    with le show ?thesis by simp
  qed
qed

lemma execute_all_loop_config:
  "execute_all_loop ps x h = (res, h', out) \<Longrightarrow>
   stages (h' r) = stages (h r) \<and> cls (h' r) = cls (h r)"
proof (induction ps arbitrary: h out res h')
  case Nil
  then show ?case by simp
next
  case (Cons p ps)
  obtain rp ha oa where tr: "execute_all_try p x h = (rp, ha, oa)"
    by (cases "execute_all_try p x h")
  obtain r' hb ob where t: "execute_all_loop ps x ha = (r', hb, ob)"
    by (cases "execute_all_loop ps x ha")
  have "ha = fst (snd (process p x h))"
    using tr by (cases rule: execute_all_try_cases[of p x h]) simp_all
  then have pr: "process p x h = (fst (process p x h), ha, snd (snd (process p x h)))" by simp
  from process_config[OF pr, of r]
  have c1: "stages (ha r) = stages (h r) \<and> cls (ha r) = cls (h r)" by simp
  from Cons.IH[OF t] have c2: "stages (hb r) = stages (ha r) \<and> cls (hb r) = cls (ha r)" .
  from Cons.prems tr t have "h' = ha \<or> h' = hb" by (simp split: if_splits sum.splits)
  with c1 c2 show ?case by auto
qed

lemma execute_all_loop_results:
  assumes "\<forall>p \<in> set ps. \<exists>v. fst (process p x h0) = Inr v"
    and "\<forall>r. stages (h r) = stages (h0 r) \<and> cls (h r) = cls (h0 r)"
  shows "fst (execute_all_loop ps x h) = Inr () \<and>
         snd (snd (execute_all_loop ps x h)) =
           concat (map (\<lambda>p. snd (snd (process p x h0)) @
                     (case fst (process p x h0) of
                        Inr (PStr t) \<Rightarrow> [''Nexus Manager result: '' @ t @ [CHR 0x0A]]
                      | _ \<Rightarrow> [])) ps)"
  using assms
proof (induction ps arbitrary: h)
  case Nil
  then show ?case by simp
next
  case (Cons p ps)
  from Cons.prems obtain v where v: "fst (process p x h0) = Inr v" by auto
  from Cons.prems(2) have c: "stages (h p) = stages (h0 p)" "cls (h p) = cls (h0 p)" by simp_all
  from process_cong(1,2)[of h p h0, OF c, of x] v
  have f: "fst (process p x h) = Inr v"
    and oa: "snd (snd (process p x h)) = snd (snd (process p x h0))" by simp_all
  let ?ha = "fst (snd (process p x h))"
  from f have pr: "process p x h = (Inr v, ?ha, snd (snd (process p x h)))"
    by (metis prod.collapse)
  from process_Inr_iff[OF pr] obtain t where t: "v = PStr t" by auto
  from execute_all_try_Inr[of p x h t] pr t oa
  have tr: "execute_all_try p x h =
      (Inr (), ?ha, snd (snd (process p x h0)) @ [''Nexus Manager result: '' @ t @ [CHR 0x0A]])"
    by simp
  from process_config[OF pr] Cons.prems(2)
  have cfg: "\<forall>r. stages (?ha r) = stages (h0 r) \<and> cls (?ha r) = cls (h0 r)" by simp
  from Cons.prems(1) have "\<forall>p \<in> set ps. \<exists>v. fst (process p x h0) = Inr v" by simp
  from Cons.IH[OF this cfg]
  have ih: "fst (execute_all_loop ps x ?ha) = Inr ()"
    "snd (snd (execute_all_loop ps x ?ha)) =
           concat (map (\<lambda>p. snd (snd (process p x h0)) @
                     (case fst (process p x h0) of
                        Inr (PStr t) \<Rightarrow> [''Nexus Manager result: '' @ t @ [CHR 0x0A]]
                      | _ \<Rightarrow> [])) ps)" by simp_all
  obtain r' hb ob where l: "execute_all_loop ps x ?ha = (r', hb, ob)"
    by (cases "execute_all_loop ps x ?ha")
  with ih tr v t show ?case by simp
qed

lemma distinct_count_list_one:
  "distinct xs \<Longrightarrow> x \<in> set xs \<Longrightarrow> count_list xs x = 1"
  by (induction xs) auto

section \<open>The objects of main and the others, evaluated\<close>

lemma main_heap_0:
  "stages (main_heap 0) = [InputStage, TransformStage, OutputStage]"
  "cls (main_heap 0) = JSONAdapter"
  "processed_count (main_heap 0) = 0"
  by (simp_all add: main_heap_def three_stages_def new_pipeline_def add_stage_def
      ProcessingPipeline_init_def blank_heap_def)

lemma main_heap_1:
  "stages (main_heap 1) = [InputStage, TransformStage, OutputStage]"
  "cls (main_heap 1) = CSVAdapter"
  "processed_count (main_heap 1) = 0"
  "stages (main_heap (Suc 0)) = [InputStage, TransformStage, OutputStage]"
  "cls (main_heap (Suc 0)) = CSVAdapter"
  "processed_count (main_heap (Suc 0)) = 0"
  by (simp_all add: main_heap_def three_stages_def new_pipeline_def add_stage_def
      ProcessingPipeline_init_def blank_heap_def)

lemma main_heap_2:
  "stages (main_heap 2) = [InputStage, TransformStage, OutputStage]"
  "cls (main_heap 2) = StreamAdapter"
  "processed_count (main_heap 2) = 0"
  by (simp_all add: main_heap_def three_stages_def new_pipeline_def add_stage_def
      ProcessingPipeline_init_def blank_heap_def)

lemma main_manager_pipelines: "pipelines main_manager = [0, 1, 2]"
  by (simp add: main_manager_def add_pipeline_def NexusManager_init_def)

lemma fatal_heap_simps:
  "stages (fatal_heap 0) = [InputStage, TransformStage, OutputStage]"
  "stages (fatal_heap 1) = [InputStage, TransformStage, OutputStage, fatal_stage]"
  "stages (fatal_heap 2) = [InputStage, TransformStage, OutputStage]"
  "cls (fatal_heap 0) = JSONAdapter" "cls (fatal_heap 1) = CSVAdapter"
  "cls (fatal_heap 2) = StreamAdapter"
  "processed_count (fatal_heap 0) = 0" "processed_count (fatal_heap 1) = 0"
  "processed_count (fatal_heap 2) = 0"
  "stages (fatal_heap (Suc 0)) = [InputStage, TransformStage, OutputStage, fatal_stage]"
  "cls (fatal_heap (Suc 0)) = CSVAdapter"
  "processed_count (fatal_heap (Suc 0)) = 0"
  by (simp_all add: fatal_heap_def add_stage_def main_heap_0 main_heap_1 main_heap_2)

lemma exotic_heap_simps:
  "stages (exotic_heap 0) = [huge_stage, value_error_stage]"
  "stages (exotic_heap 1) = [fatal_stage]"
  "stages (exotic_heap (Suc 0)) = [fatal_stage]"
  "cls (exotic_heap 0) = JSONAdapter" "cls (exotic_heap 1) = CSVAdapter"
  "cls (exotic_heap (Suc 0)) = CSVAdapter"
  "processed_count (exotic_heap 0) = 0" "processed_count (exotic_heap 1) = 0"
  "processed_count (exotic_heap (Suc 0)) = 0"
  by (simp_all add: exotic_heap_def new_pipeline_def add_stage_def
      ProcessingPipeline_init_def blank_heap_def)

lemma exotic_manager_pipelines: "pipelines exotic_manager = [0, 1]"
  by (simp add: exotic_manager_def add_pipeline_def NexusManager_init_def)


lemmas stage_process_simps =
  InputStage_process_def OutputStage_process_def TransformStage_process_def

lemma run_stages_three:
  "stages self = [InputStage, TransformStage, OutputStage] \<Longrightarrow>
   run_stages self data =
     (if data = PStr ''FAIL''
      then (Inr (PStr ''[RECOVERED]FAIL''),
            [''Stage Input: Validating and parsing data'',
             ''Stage Transform: Enriching data'',
             ''Error detected in stage: Invalid data format'',
             ''Recovery initiated: Switching to safe mode'',
             ''Recovery successful. Continuing pipeline.'',
             ''Stage Output: Formatting result''])
      else (Inr data,
            [''Stage Input: Validating and parsing data'',
             ''Stage Transform: Enriching data'',
             ''Stage Output: Formatting result'']))"
  by (simp add: run_stages_def stage_process_simps recoverable_def)

lemma run_stages_fatal_heap_1:
  "run_stages (fatal_heap 1) (PStr ''TEST DATA'') =
     (Inl (Exn (OtherError ''RuntimeError'') ''disk failure''),
      [''Stage Input: Validating and parsing data'',
       ''Stage Transform: Enriching data'',
       ''Stage Output: Formatting result''])"
  by (simp add: run_stages_def fatal_heap_simps stage_process_simps fatal_stage_def
      recoverable_def)

lemma run_stages_exotic_heap_0:
  "run_stages (exotic_heap 0) (PStr ''x'') =
     (Inl digits_limit_error,
      [''Error detected in stage: bad value'',
       ''Recovery initiated: Switching to safe mode''])"
  by (simp add: run_stages_def exotic_heap_simps huge_stage_def value_error_stage_def
      recoverable_def py_str_huge_int del: py_str.simps)

lemma run_stages_exotic_heap_1:
  "run_stages (exotic_heap 1) (PStr ''x'') =
     (Inl (Exn (OtherError ''RuntimeError'') ''disk failure''), [])"
  by (simp add: run_stages_def exotic_heap_simps fatal_stage_def recoverable_def)

lemma process_main_heap_0_FAIL:
  "fst (process 0 (PStr ''FAIL'') main_heap) = Inr (PStr ''Processed JSON data: [RECOVERED]FAIL'')"
  using process_ok(1)[of "PStr ''FAIL''" "''FAIL''" main_heap 0 "PStr ''[RECOVERED]FAIL''" _
      "''[RECOVERED]FAIL''"]
  by (simp add: run_stages_three main_heap_0)

section \<open>The claims\<close>

subsection \<open>C1\<close>




subsection \<open>C2\<close>




subsection \<open>C3\<close>

text \<open>
  C3. A new pipeline has \<open>processed_count = 0\<close>. No operation that changes the
  store lowers the counter of any pipeline \<open>r\<close>: not \<^verbatim>\<open>add_stage\<close>, which leaves
  it as it is, nor \<^verbatim>\<open>process\<close>, \<^verbatim>\<open>execute_all\<close> or \<^verbatim>\<open>execute_chain\<close>
  (\<^verbatim>\<open>run_stages\<close> and \<^verbatim>\<open>add_pipeline\<close> do not write to a pipeline at all).
  A call of \<^verbatim>\<open>process\<close> that returns adds exactly 1 to the counter of its own
  pipeline and leaves every other counter as it was, whether or not a stage was
  recovered from during the call.
\<close>

theorem C3_processed_count:
  "processed_count (ProcessingPipeline_init c pid) = 0
   \<and> processed_count (add_stage self stage h r) = processed_count (h r)
   \<and> processed_count (h r) \<le> processed_count (fst (snd (process self data h)) r)
   \<and> processed_count (h r) \<le> processed_count (fst (snd (execute_all m data h)) r)
   \<and> processed_count (h r) \<le> processed_count (fst (snd (execute_chain m data h)) r)
   \<and> ((\<exists>v. fst (process self data h) = Inr v) \<longrightarrow>
        processed_count (fst (snd (process self data h)) self) = processed_count (h self) + 1
        \<and> (r \<noteq> self \<longrightarrow>
             processed_count (fst (snd (process self data h)) r) = processed_count (h r)))"
proof (intro conjI impI)
  show "processed_count (ProcessingPipeline_init c pid) = 0"
    by (simp add: ProcessingPipeline_init_def)
  show "processed_count (add_stage self stage h r) = processed_count (h r)"
    by (simp add: add_stage_def)
  obtain res h1 out where p: "process self data h = (res, h1, out)"
    by (cases "process self data h")
  from process_count_le[OF p, of r] p
  show "processed_count (h r) \<le> processed_count (fst (snd (process self data h)) r)"
    by simp
  obtain res2 h2 out2 where a: "execute_all_loop (pipelines m) data h = (res2, h2, out2)"
    by (cases "execute_all_loop (pipelines m) data h")
  from execute_all_loop_mono[OF a, of r] a
  show "processed_count (h r) \<le> processed_count (fst (snd (execute_all m data h)) r)"
    by (simp add: execute_all_def)
  obtain res3 h3 out3 where b: "execute_chain_loop (pipelines m) data 1 h = (res3, h3, out3)"
    by (cases "execute_chain_loop (pipelines m) data 1 h")
  from execute_chain_loop_mono[OF b, of r] b
  show "processed_count (h r) \<le> processed_count (fst (snd (execute_chain m data h)) r)"
    by (simp add: execute_chain_def)
  {
    assume "\<exists>v. fst (process self data h) = Inr v"
    then obtain v where v: "res = Inr v" using p by auto
    with p have p': "process self data h = (Inr v, h1, out)" by simp
    from process_count_Inr[OF p', of self] p
    show "processed_count (fst (snd (process self data h)) self) = processed_count (h self) + 1"
      by simp
    {
      assume "r \<noteq> self"
      with process_count_Inr[OF p', of r] p
      show "processed_count (fst (snd (process self data h)) r) = processed_count (h r)"
        by simp
    }
  }
qed

text \<open>
  A call of \<^verbatim>\<open>process\<close> during which the Transform stage is recovered from: the
  counter of the JSON pipeline goes from 0 to 1, that of the CSV pipeline stays 0.
\<close>

theorem C3_processed_count_witness:
  "processed_count (fst (snd (process 0 (PStr ''FAIL'') main_heap)) 0) = 1
   \<and> processed_count (fst (snd (process 0 (PStr ''FAIL'') main_heap)) 1) = 0"
  using C3_processed_count [of JSONAdapter "''JSON_01''" 0 InputStage main_heap 1
      "PStr ''FAIL''" main_manager]
    process_main_heap_0_FAIL
  by (simp add: main_heap_0 main_heap_1)

subsection \<open>C4\<close>

text \<open>
  C4. The result and the final store of \<^verbatim>\<open>execute_chain\<close> are those of the left
  fold \<open>execute_chain_fold\<close> of \<^verbatim>\<open>process\<close> over the manager's adapters, from the
  given data. For a manager of two adapters \<open>a\<close> then \<open>b\<close> that both return, the
  chain returns what \<open>b\<close> returns on the value that \<open>a\<close> returned.
\<close>

theorem C4_execute_chain_fold:
  "(case execute_chain m data h of (res, h', out) \<Rightarrow> (res, h')) = execute_chain_fold m data h
   \<and> (pipelines m = [a, b]
        \<and> process a data h = (Inr y, h1, out1)
        \<and> process b y h1 = (Inr z, h2, out2) \<longrightarrow>
      fst (execute_chain m data h) = fst (process b y h1)
      \<and> fst (execute_chain m data h) = Inr z
      \<and> fst (snd (execute_chain m data h)) = h2)"
proof (intro conjI impI)
  show "(case execute_chain m data h of (res, h', out) \<Rightarrow> (res, h')) = execute_chain_fold m data h"
    by (simp add: execute_chain_def execute_chain_fold_def execute_chain_loop_fold)
next
  assume a: "pipelines m = [a, b]
        \<and> process a data h = (Inr y, h1, out1)
        \<and> process b y h1 = (Inr z, h2, out2)"
  then show "fst (execute_chain m data h) = fst (process b y h1)"
    and "fst (execute_chain m data h) = Inr z"
    and "fst (snd (execute_chain m data h)) = h2"
    by (simp_all add: execute_chain_def)
qed

text \<open>
  The chain of the JSON and the Stream pipeline of \<^verbatim>\<open>main\<close> on \<^verbatim>\<open>TEST DATA\<close>.
\<close>

theorem C4_execute_chain_fold_witness:
  "fst (execute_chain (add_pipeline (add_pipeline NexusManager_init 0) 2)
          (PStr ''TEST DATA'') main_heap)
     = Inr (PStr ''Processed STREAM data: Processed JSON data: TEST DATA'')"
proof -
  let ?h1 = "main_heap(0 := (main_heap 0)\<lparr>processed_count := processed_count (main_heap 0) + 1\<rparr>)"
  let ?y = "PStr ''Processed JSON data: TEST DATA''"
  let ?z = "PStr ''Processed STREAM data: Processed JSON data: TEST DATA''"
  have m: "pipelines (add_pipeline (add_pipeline NexusManager_init 0) 2) = [0, 2]"
    by (simp add: add_pipeline_def NexusManager_init_def)
  have "run_stages (main_heap 0) (PStr ''TEST DATA'') =
      (Inr (PStr ''TEST DATA''),
            [''Stage Input: Validating and parsing data'',
             ''Stage Transform: Enriching data'',
             ''Stage Output: Formatting result''])"
    by (simp add: run_stages_three main_heap_0)
  from process_ok_full[of "PStr ''TEST DATA''" "''TEST DATA''" main_heap 0 _ _ "''TEST DATA''", OF _ this]
  obtain out1 where p1: "process 0 (PStr ''TEST DATA'') main_heap = (Inr ?y, ?h1, out1)"
    by (simp add: main_heap_0)
  have "run_stages (?h1 2) ?y =
      (Inr ?y,
            [''Stage Input: Validating and parsing data'',
             ''Stage Transform: Enriching data'',
             ''Stage Output: Formatting result''])"
    by (simp add: run_stages_three main_heap_2)
  from process_ok_full[of ?y "''Processed JSON data: TEST DATA''" ?h1 2 _ _
      "''Processed JSON data: TEST DATA''", OF _ this]
  obtain h2 out2 where p2: "process 2 ?y ?h1 = (Inr ?z, h2, out2)"
    by (simp add: main_heap_2)
  from C4_execute_chain_fold
         [of "add_pipeline (add_pipeline NexusManager_init 0) 2" "PStr ''TEST DATA''"
             main_heap 0 2 ?y ?h1 out1 ?z h2 out2] m p1 p2
  show ?thesis by blast
qed

subsection \<open>C5\<close>

text \<open>
  C5. Let the manager's adapters be \<open>pre @ k # post\<close>, let \<^verbatim>\<open>execute_all\<close> have
  gone through the adapters of \<open>pre\<close>, and let the process of \<open>k\<close> raise an
  exception that is neither a \<^verbatim>\<open>TypeError\<close> nor a \<^verbatim>\<open>ValueError\<close>. Then
  \<^verbatim>\<open>execute_all\<close> ends with that exception, in the store and with the output
  reached when \<open>k\<close> failed: no adapter of \<open>post\<close> runs. In that store the counter
  of every pipeline is its old value plus, for each time the pipeline occurs in
  \<open>pre\<close>, what one call of its process adds. So an adapter of \<open>pre\<close> that
  completed, that is whose process returns on the data, keeps its increments: one
  for each time it occurs in \<open>pre\<close>. Whether a call of process returns, and with
  what, is the same in the store reached as in the first store, since the calls
  change counters only.
\<close>

theorem C5_execute_all_fatal:
  assumes "pipelines m = pre @ k # post"
    and "execute_all_loop pre data h = (Inr (), h1, out1)"
    and "process k data h1 = (Inl e, h2, out2)"
    and "\<not> recoverable e"
  shows "execute_all m data h = (Inl e, h1, out1 @ out2)
       \<and> h2 = h1
       \<and> (\<forall>r. processed_count (h1 r) =
                 processed_count (h r) +
                 int (count_list pre r) *
                   (processed_count (fst (snd (process r data h)) r) - processed_count (h r)))
       \<and> (\<forall>r. (\<exists>v. fst (process r data h) = Inr v) \<longrightarrow>
                 processed_count (h1 r) = processed_count (h r) + int (count_list pre r))
       \<and> (\<forall>r \<in> set pre. (\<exists>v. fst (process r data h) = Inr v) \<longrightarrow>
                 processed_count (h r) < processed_count (h1 r))
       \<and> (\<forall>r. fst (process r data h1) = fst (process r data h))"
proof -
  from process_fatal_store(1)[OF assms(3,4)] have h2: "h2 = h1" .
  have 5: "\<forall>r. fst (process r data h1) = fst (process r data h)"
  proof
    fix r
    from execute_all_loop_config[OF assms(2), of r]
    have "stages (h1 r) = stages (h r)" "cls (h1 r) = cls (h r)" by simp_all
    from process_cong(1)[of h1 r h, OF this]
    show "fst (process r data h1) = fst (process r data h)" .
  qed
  from h2 assms(3,4) have tr: "execute_all_try k data h1 = (Inl e, h1, out2)"
    by (simp add: execute_all_try_Inl)
  have "execute_all_loop (pre @ k # post) data h =
          (case execute_all_loop (k # post) data h1 of
             (res, h', out') \<Rightarrow> (res, h', out1 @ out'))"
    using assms(2) by (rule execute_all_loop_append)
  with assms(1,4) tr have 1: "execute_all m data h = (Inl e, h1, out1 @ out2)"
    by (simp add: execute_all_def)
  have 2: "\<forall>r. processed_count (h1 r) =
                 processed_count (h r) +
                 int (count_list pre r) *
                   (processed_count (fst (snd (process r data h)) r) - processed_count (h r))"
    using execute_all_loop_delta[OF assms(2), of h] by simp
  have 3: "\<forall>r. (\<exists>v. fst (process r data h) = Inr v) \<longrightarrow>
                 processed_count (h1 r) = processed_count (h r) + int (count_list pre r)"
  proof (intro allI impI)
    fix r assume "\<exists>v. fst (process r data h) = Inr v"
    then obtain v where "process r data h =
        (Inr v, fst (snd (process r data h)), snd (snd (process r data h)))"
      by (metis prod.collapse)
    from process_count_Inr[OF this, of r]
    have "processed_count (fst (snd (process r data h)) r) - processed_count (h r) = 1" by simp
    with 2 show "processed_count (h1 r) = processed_count (h r) + int (count_list pre r)"
      by simp
  qed
  have 4: "\<forall>r \<in> set pre. (\<exists>v. fst (process r data h) = Inr v) \<longrightarrow>
                 processed_count (h r) < processed_count (h1 r)"
  proof (intro ballI impI)
    fix r assume "r \<in> set pre" and ret: "\<exists>v. fst (process r data h) = Inr v"
    then have "0 < count_list pre r" using count_list_0_iff[of pre r] by simp
    with 3 ret show "processed_count (h r) < processed_count (h1 r)" by simp
  qed
  from 1 2 3 4 5 h2 show ?thesis by blast
qed

text \<open>
  The manager of \<^verbatim>\<open>main\<close> on \<open>fatal_heap\<close>: the JSON pipeline completes, the CSV
  pipeline fails, the Stream pipeline never runs. And \<open>exotic_manager\<close>: the JSON
  adapter raises a \<^verbatim>\<open>ValueError\<close>, which \<^verbatim>\<open>execute_all\<close> catches, so it did not
  complete and its counter stays 0; then the CSV adapter fails.
\<close>

theorem C5_execute_all_fatal_witness:
  "fst (execute_all main_manager (PStr ''TEST DATA'') fatal_heap)
     = Inl (Exn (OtherError ''RuntimeError'') ''disk failure'')
   \<and> processed_count (fst (snd (execute_all main_manager (PStr ''TEST DATA'') fatal_heap)) 0) = 1
   \<and> processed_count (fst (snd (execute_all main_manager (PStr ''TEST DATA'') fatal_heap)) 1) = 0
   \<and> processed_count (fst (snd (execute_all main_manager (PStr ''TEST DATA'') fatal_heap)) 2) = 0
   \<and> fst (execute_all exotic_manager (PStr ''x'') exotic_heap)
     = Inl (Exn (OtherError ''RuntimeError'') ''disk failure'')
   \<and> processed_count (fst (snd (execute_all exotic_manager (PStr ''x'') exotic_heap)) 0) = 0"
proof -
  let ?x = "PStr ''TEST DATA''"
  let ?e = "Exn (OtherError ''RuntimeError'') ''disk failure''"
  let ?h1 = "fatal_heap(0 := (fatal_heap 0)\<lparr>processed_count := processed_count (fatal_heap 0) + 1\<rparr>)"
  have nr: "\<not> recoverable ?e" by (simp add: recoverable_def)
  have "run_stages (fatal_heap 0) ?x =
      (Inr ?x,
            [''Stage Input: Validating and parsing data'',
             ''Stage Transform: Enriching data'',
             ''Stage Output: Formatting result''])"
    by (simp add: run_stages_three fatal_heap_simps)
  from process_ok_full[of ?x "''TEST DATA''" fatal_heap 0 _ _ "''TEST DATA''", OF _ this]
  obtain o0 where "process 0 ?x fatal_heap = (Inr (PStr ''Processed JSON data: TEST DATA''), ?h1, o0)"
    by (simp add: fatal_heap_simps)
  from execute_all_try_Inr[OF this]
  obtain out1 where pre: "execute_all_loop [0] ?x fatal_heap = (Inr (), ?h1, out1)"
    by simp
  have "run_stages (?h1 1) ?x =
     (Inl ?e,
      [''Stage Input: Validating and parsing data'',
       ''Stage Transform: Enriching data'',
       ''Stage Output: Formatting result''])"
    using run_stages_fatal_heap_1 by simp
  from process_error_full[of ?x "''TEST DATA''" ?h1 1, OF _ this]
  obtain out2 where k: "process 1 ?x ?h1 = (Inl ?e, ?h1, out2)"
    by simp
  have m: "pipelines main_manager = [0] @ 1 # [2]"
    by (simp add: main_manager_pipelines)
  from C5_execute_all_fatal[OF m pre k nr]
  have a: "execute_all main_manager ?x fatal_heap = (Inl ?e, ?h1, out1 @ out2)" by simp
  let ?y = "PStr ''x''"
  from process_error_full[of ?y "''x''" exotic_heap 0, OF _ run_stages_exotic_heap_0]
  obtain o3 where "process 0 ?y exotic_heap = (Inl digits_limit_error, exotic_heap, o3)"
    by simp
  from execute_all_try_Inl[OF this]
  obtain out3 where pre2: "execute_all_loop [0] ?y exotic_heap = (Inr (), exotic_heap, out3)"
    by (simp add: recoverable_digits_limit_error)
  from process_error_full[of ?y "''x''" exotic_heap 1, OF _ run_stages_exotic_heap_1]
  obtain out4 where k2: "process 1 ?y exotic_heap = (Inl ?e, exotic_heap, out4)"
    by simp
  have m2: "pipelines exotic_manager = [0] @ 1 # []"
    by (simp add: exotic_manager_pipelines)
  from C5_execute_all_fatal[OF m2 pre2 k2 nr]
  have b: "execute_all exotic_manager ?y exotic_heap = (Inl ?e, exotic_heap, out3 @ out4)"
    by simp
  from a b show ?thesis by (simp add: fatal_heap_simps exotic_heap_simps)
qed

subsection \<open>C6\<close>



subsection \<open>C7\<close>




subsection \<open>C8\<close>

text \<open>
  C8, as amended. If the process of every adapter of the manager returns on \<open>x\<close>,
  then \<^verbatim>\<open>execute_all\<close> returns, and what it prints is, adapter by adapter in
  order, the output of that adapter's process on the original \<open>x\<close> in the original
  store followed by the line with that result, which is a text: no adapter sees
  the effect of another. Every counter grows by the number of times its pipeline is
  registered, which is 1 for each adapter when the registered adapters are
  different objects.
\<close>

theorem C8_execute_all_independent:
  assumes "\<forall>p \<in> set (pipelines m). \<exists>v. fst (process p x h) = Inr v"
  shows "fst (execute_all m x h) = Inr ()
       \<and> snd (snd (execute_all m x h)) =
           concat (map (\<lambda>p. snd (snd (process p x h)) @
                     (case fst (process p x h) of
                        Inr (PStr t) \<Rightarrow> [''Nexus Manager result: '' @ t @ [CHR 0x0A]]
                      | _ \<Rightarrow> [])) (pipelines m))
       \<and> (\<forall>p \<in> set (pipelines m). \<exists>t. fst (process p x h) = Inr (PStr t))
       \<and> (\<forall>r. processed_count (fst (snd (execute_all m x h)) r) =
                processed_count (h r) + int (count_list (pipelines m) r))
       \<and> (distinct (pipelines m) \<longrightarrow>
            (\<forall>p \<in> set (pipelines m).
               processed_count (fst (snd (execute_all m x h)) p) = processed_count (h p) + 1))"
proof -
  from execute_all_loop_results[OF assms, of h]
  have 1: "fst (execute_all m x h) = Inr ()"
    and 2: "snd (snd (execute_all m x h)) =
           concat (map (\<lambda>p. snd (snd (process p x h)) @
                     (case fst (process p x h) of
                        Inr (PStr t) \<Rightarrow> [''Nexus Manager result: '' @ t @ [CHR 0x0A]]
                      | _ \<Rightarrow> [])) (pipelines m))"
    by (simp_all add: execute_all_def)
  have 5: "\<forall>p \<in> set (pipelines m). \<exists>t. fst (process p x h) = Inr (PStr t)"
  proof
    fix p assume "p \<in> set (pipelines m)"
    with assms obtain v where "process p x h =
        (Inr v, fst (snd (process p x h)), snd (snd (process p x h)))"
      by (metis prod.collapse)
    from process_Inr_iff[OF this] this show "\<exists>t. fst (process p x h) = Inr (PStr t)"
      by (metis fst_conv)
  qed
  obtain res h' out where e: "execute_all_loop (pipelines m) x h = (res, h', out)"
    by (cases "execute_all_loop (pipelines m) x h")
  with 1 have "res = Inr ()" by (simp add: execute_all_def)
  with e have e': "execute_all_loop (pipelines m) x h = (Inr (), h', out)" by simp
  have 3: "\<forall>r. processed_count (fst (snd (execute_all m x h)) r) =
                processed_count (h r) + int (count_list (pipelines m) r)"
  proof
    fix r
    show "processed_count (fst (snd (execute_all m x h)) r) =
                processed_count (h r) + int (count_list (pipelines m) r)"
    proof (cases "r \<in> set (pipelines m)")
      case False
      with execute_all_loop_delta[OF e', of h r] e' show ?thesis
        by (simp add: execute_all_def)
    next
      case True
      with assms obtain v where "process r x h =
          (Inr v, fst (snd (process r x h)), snd (snd (process r x h)))"
        by (metis prod.collapse)
      from process_count_Inr[OF this, of r]
      have "processed_count (fst (snd (process r x h)) r) - processed_count (h r) = 1" by simp
      with execute_all_loop_delta[OF e', of h r] e' show ?thesis
        by (simp add: execute_all_def)
    qed
  qed
  have 4: "distinct (pipelines m) \<longrightarrow>
            (\<forall>p \<in> set (pipelines m).
               processed_count (fst (snd (execute_all m x h)) p) = processed_count (h p) + 1)"
  proof (intro impI ballI)
    fix p assume "distinct (pipelines m)" "p \<in> set (pipelines m)"
    then have "count_list (pipelines m) p = 1" by (simp add: distinct_count_list_one)
    with 3 show "processed_count (fst (snd (execute_all m x h)) p) = processed_count (h p) + 1"
      by simp
  qed
  from 1 2 3 4 5 show ?thesis by blast
qed

text \<open>
  The first call of \<^verbatim>\<open>execute_all\<close> in \<^verbatim>\<open>main\<close>: the three counters go to 1.
\<close>

theorem C8_execute_all_independent_witness:
  "fst (execute_all main_manager (PStr ''TEST DATA'') main_heap) = Inr ()
   \<and> processed_count (fst (snd (execute_all main_manager (PStr ''TEST DATA'') main_heap)) 0) = 1
   \<and> processed_count (fst (snd (execute_all main_manager (PStr ''TEST DATA'') main_heap)) 1) = 1
   \<and> processed_count (fst (snd (execute_all main_manager (PStr ''TEST DATA'') main_heap)) 2) = 1"
proof -
  let ?x = "PStr ''TEST DATA''"
  have rs: "\<And>p. stages (main_heap p) = [InputStage, TransformStage, OutputStage] \<Longrightarrow>
      run_stages (main_heap p) ?x =
      (Inr ?x,
            [''Stage Input: Validating and parsing data'',
             ''Stage Transform: Enriching data'',
             ''Stage Output: Formatting result''])"
    by (simp add: run_stages_three)
  have ps: "py_str ?x = Inr ''TEST DATA''" by simp
  have "\<exists>v. fst (process 0 ?x main_heap) = Inr v"
    using process_ok(1)[of ?x _ main_heap 0, OF ps rs ps] by (simp add: main_heap_0)
  moreover have "\<exists>v. fst (process 1 ?x main_heap) = Inr v"
    using process_ok(1)[of ?x _ main_heap 1, OF ps rs ps] by (simp add: main_heap_1)
  moreover have "\<exists>v. fst (process 2 ?x main_heap) = Inr v"
    using process_ok(1)[of ?x _ main_heap 2, OF ps rs ps] by (simp add: main_heap_2)
  ultimately have a: "\<forall>p \<in> set (pipelines main_manager). \<exists>v. fst (process p ?x main_heap) = Inr v"
    by (simp add: main_manager_pipelines)
  have d: "distinct (pipelines main_manager)" by (simp add: main_manager_pipelines)
  from C8_execute_all_independent[OF a] d
  show ?thesis by (simp add: main_manager_pipelines main_heap_0 main_heap_1 main_heap_2)
qed

text \<open>
  C8 as stated asks only that no fatal error occurs. On the integer \<^verbatim>\<open>10**4300\<close>
  the process of each of the three adapters of \<^verbatim>\<open>main\<close> raises a \<^verbatim>\<open>ValueError\<close>,
  which \<^verbatim>\<open>execute_all\<close> catches: it returns, so no fatal error occurs, yet it
  prints no result and leaves the store, with all three counters, as it was.
\<close>

theorem C8_execute_all_independent_counterexample:
  "execute_all main_manager (PInt huge_int) main_heap =
     (Inr (), main_heap,
      [''Adapter: Processing JSON data through pipeline...'',
       ''Error procesing data '' @ exn_msg digits_limit_error,
       ''Adapter: Processing CSV data through same pipeline...'',
       ''Error procesing data '' @ exn_msg digits_limit_error,
       ''Adapter: Processing Stream data through same pipeline...'',
       ''Error procesing data '' @ exn_msg digits_limit_error])
   \<and> exn_cls digits_limit_error = ValueError
   \<and> processed_count (fst (snd (execute_all main_manager (PInt huge_int) main_heap)) 0)
       \<noteq> processed_count (main_heap 0) + 1"
proof -
  have p: "\<And>p. process p (PInt huge_int) main_heap =
     (Inl digits_limit_error, main_heap,
      [(case cls (main_heap p) of
          JSONAdapter \<Rightarrow> ''Adapter: Processing JSON data through pipeline...''
        | CSVAdapter \<Rightarrow> ''Adapter: Processing CSV data through same pipeline...''
        | StreamAdapter \<Rightarrow> ''Adapter: Processing Stream data through same pipeline...'')])"
    by (rule process_unprintable_full) (rule py_str_huge_int)
  have t: "\<And>p. execute_all_try p (PInt huge_int) main_heap =
     (Inl digits_limit_error, main_heap,
      [(case cls (main_heap p) of
          JSONAdapter \<Rightarrow> ''Adapter: Processing JSON data through pipeline...''
        | CSVAdapter \<Rightarrow> ''Adapter: Processing CSV data through same pipeline...''
        | StreamAdapter \<Rightarrow> ''Adapter: Processing Stream data through same pipeline...'')])"
    by (rule execute_all_try_Inl) (rule p)
  have "exn_cls digits_limit_error = ValueError" by (simp add: digits_limit_error_def)
  then show ?thesis
    by (simp add: execute_all_def main_manager_pipelines t recoverable_digits_limit_error
        main_heap_0 main_heap_1 main_heap_2)
qed

subsection \<open>C9\<close>

text \<open>
  C9, as amended. The Transform stage raises exactly when its input is the text
  \<^verbatim>\<open>FAIL\<close>; what it raises is a \<^verbatim>\<open>ValueError\<close> whose message is
  \<^verbatim>\<open>Invalid data format\<close>, with a capital I; on every other input it returns the
  input as it is.
\<close>

theorem C9_transform_stage:
  "((\<exists>e. fst (TransformStage_process data) = Inl e) \<longleftrightarrow> data = PStr ''FAIL'')
   \<and> (data = PStr ''FAIL'' \<longrightarrow>
        fst (TransformStage_process data) = Inl (Exn ValueError ''Invalid data format''))
   \<and> (data \<noteq> PStr ''FAIL'' \<longrightarrow> fst (TransformStage_process data) = Inr data)"
  by (simp add: TransformStage_process_def)

text \<open>
  The Transform stage on the sentinel, on another text and on an integer.
\<close>

theorem C9_transform_stage_witness:
  "fst (TransformStage_process (PStr ''FAIL'')) = Inl (Exn ValueError ''Invalid data format'')
   \<and> fst (TransformStage_process (PStr ''TEST DATA'')) = Inr (PStr ''TEST DATA'')
   \<and> fst (TransformStage_process (PInt 7)) = Inr (PInt 7)"
  using C9_transform_stage [of "PStr ''FAIL''"] C9_transform_stage [of "PStr ''TEST DATA''"]
    C9_transform_stage [of "PInt 7"]
  by simp

text \<open>
  C9 as stated gives the message as \<^verbatim>\<open>invalid data format\<close>. On the sentinel the
  exception raised does not carry that message: its message starts with a capital.
\<close>

theorem C9_transform_message_counterexample:
  "fst (TransformStage_process (PStr ''FAIL'')) \<noteq> Inl (Exn ValueError ''invalid data format'')
   \<and> fst (TransformStage_process (PStr ''FAIL'')) = Inl (Exn ValueError ''Invalid data format'')"
  by (simp add: TransformStage_process_def)

subsection \<open>C10\<close>




end
